theory Spec2Isabelle
  imports Main "HOL-Library.AList"
begin

section \<open>JavaScript values\<close>

text \<open>
  The library works on plain data: primitives, plain objects and arrays whose properties
  are again such values. A plain object (\<open>Obj\<close>) and an array (\<open>Arr\<close>) are the list
  of their own enumerable properties, in the order \<open>Object.entries\<close> lists them; the
  elements of an array are its properties \<open>"0"\<close>, \<open>"1"\<close>, ... and its \<open>length\<close> is
  one more than its greatest index. Objects are trees and a value is the tree below it:
  an object stored under a property is stored with what it holds at that moment, and no
  object is reached along two paths. (The cache, which keeps objects by reference, has a
  heap of its own further down.)

  Reading a property also finds what the runtime provides: the properties of
  \<open>Object.prototype\<close> and \<open>Array.prototype\<close>, which every object or array inherits.
  Their values are functions (\<open>Builtin\<close>, named by where they live) and, under
  \<open>__proto__\<close>, the prototype objects themselves. Symbols, numbers that are not
  integers and objects of other classes are not modelled.
\<close>

datatype jsval =
    Undefined
  | Null
  | Bool bool
  | Num int
  | Str string
  | Obj "(string \<times> jsval) list"
  | Arr "(string \<times> jsval) list"
  | Builtin string
  | ObjectPrototype
  | ArrayPrototype

type_synonym props = "(string \<times> jsval) list"

text \<open>
  \<open>TypeError\<close> is the exception of the source language. \<open>Unmodelled\<close> marks a read
  the model holds no answer for (a property of a function or of the wrapper of a
  boolean, number or string); it is no outcome of the source.
\<close>

datatype error = TypeError | Unmodelled

fun js_typeof :: "jsval \<Rightarrow> string" where
  "js_typeof Undefined = ''undefined''"
| "js_typeof Null = ''object''"
| "js_typeof (Bool b) = ''boolean''"
| "js_typeof (Num n) = ''number''"
| "js_typeof (Str s) = ''string''"
| "js_typeof (Obj es) = ''object''"
| "js_typeof (Arr es) = ''object''"
| "js_typeof (Builtin f) = ''function''"
| "js_typeof ObjectPrototype = ''object''"
| "js_typeof ArrayPrototype = ''object''"

fun js_truthy :: "jsval \<Rightarrow> bool" where
  "js_truthy Undefined = False"
| "js_truthy Null = False"
| "js_truthy (Bool b) = b"
| "js_truthy (Num n) = (n \<noteq> 0)"
| "js_truthy (Str s) = (s \<noteq> '''')"
| "js_truthy v = True"

subsection \<open>Array indices and property order\<close>

text \<open>
  A property whose key is an array index (the canonical decimal form of an integer
  below \<open>2^32 - 1\<close>) is listed before every other property, in ascending numeric order;
  the other properties follow in the order they were created.
\<close>

definition is_digit :: "char \<Rightarrow> bool" where
  "is_digit c = (c \<in> set ''0123456789'')"

definition digit_val :: "char \<Rightarrow> int" where
  "digit_val c = of_char c - 48"

definition index_val :: "string \<Rightarrow> int" where
  "index_val k = foldl (\<lambda>n c. 10 * n + digit_val c) 0 k"

definition is_array_index :: "string \<Rightarrow> bool" where
  "is_array_index k =
     (k \<noteq> [] \<and> list_all is_digit k \<and> (k = ''0'' \<or> hd k \<noteq> CHR ''0'')
      \<and> index_val k < 4294967295)"

fun insert_index :: "string \<Rightarrow> jsval \<Rightarrow> props \<Rightarrow> props" where
  "insert_index k v [] = [(k, v)]"
| "insert_index k v ((k', v') # es) =
     (if is_array_index k' \<and> index_val k' < index_val k
      then (k', v') # insert_index k v es
      else (k, v) # (k', v') # es)"

text \<open>
  \<open>value[key] = v\<close> as a write on an object: an existing property keeps its place, a
  new one is created at the place its key gives it.
\<close>

definition put :: "string \<Rightarrow> jsval \<Rightarrow> props \<Rightarrow> props" where
  "put k v es =
     (if k \<notin> fst ` set es \<and> is_array_index k then insert_index k v es
      else AList.update k v es)"

text \<open>The \<open>length\<close> of an array: one more than the greatest index among its keys.\<close>

definition array_length :: "string list \<Rightarrow> int" where
  "array_length ks =
     foldl (\<lambda>n k. if is_array_index k then max n (index_val k + 1) else n) 0 ks"

subsection \<open>Reading a property\<close>

text \<open>
  The string-keyed properties of \<open>Object.prototype\<close> and of \<open>Array.prototype\<close>, as
  ECMAScript 2023 lists them. \<open>__proto__\<close> is an accessor of \<open>Object.prototype\<close>: read
  through an object, it gives that object's prototype.
\<close>

definition object_prototype_keys :: "string list" where
  "object_prototype_keys =
     [''constructor'', ''__defineGetter__'', ''__defineSetter__'', ''hasOwnProperty'',
      ''__lookupGetter__'', ''__lookupSetter__'', ''isPrototypeOf'',
      ''propertyIsEnumerable'', ''toString'', ''valueOf'', ''__proto__'',
      ''toLocaleString'']"

definition array_prototype_keys :: "string list" where
  "array_prototype_keys =
     [''length'', ''constructor'', ''at'', ''concat'', ''copyWithin'', ''fill'', ''find'',
      ''findIndex'', ''findLast'', ''findLastIndex'', ''lastIndexOf'', ''pop'', ''push'',
      ''reverse'', ''shift'', ''unshift'', ''slice'', ''sort'', ''splice'', ''includes'',
      ''indexOf'', ''join'', ''keys'', ''entries'', ''values'', ''forEach'', ''filter'',
      ''flat'', ''flatMap'', ''map'', ''every'', ''some'', ''reduce'', ''reduceRight'',
      ''toLocaleString'', ''toString'', ''toReversed'', ''toSorted'', ''toSpliced'',
      ''with'']"

fun prototype_of :: "jsval \<Rightarrow> jsval" where
  "prototype_of (Obj es) = ObjectPrototype"
| "prototype_of (Arr es) = ArrayPrototype"
| "prototype_of ArrayPrototype = ObjectPrototype"
| "prototype_of v = Null"

text \<open>
  The properties an object holds itself, enumerable or not. The accessor \<open>__proto__\<close>
  is left to \<open>lookup_property\<close>, which knows the object the read started from.
\<close>

fun own_property :: "jsval \<Rightarrow> string \<Rightarrow> jsval option" where
  "own_property (Obj es) key = map_of es key"
| "own_property (Arr es) key =
     (case map_of es key of
        Some v \<Rightarrow> Some v
      | None \<Rightarrow> if key = ''length'' then Some (Num (array_length (map fst es))) else None)"
| "own_property ObjectPrototype key =
     (if key = ''constructor'' then Some (Builtin ''Object'')
      else if key \<in> set object_prototype_keys \<and> key \<noteq> ''__proto__''
      then Some (Builtin (''Object.prototype.'' @ key))
      else None)"
| "own_property ArrayPrototype key =
     (if key = ''length'' then Some (Num 0)
      else if key = ''constructor'' then Some (Builtin ''Array'')
      else if key \<in> set array_prototype_keys
      then Some (Builtin (''Array.prototype.'' @ key))
      else None)"
| "own_property v key = None"

text \<open>
  The lookup behind \<open>key in value\<close> and \<open>value[key]\<close> on an object: the object itself,
  then its prototype, then the prototype of that (no chain of the model is longer), then
  the accessor \<open>__proto__\<close>. \<open>None\<close>: the object has no such property.
\<close>

fun lookup_property :: "jsval \<Rightarrow> string \<Rightarrow> jsval option" where
  "lookup_property v key =
     (case own_property v key of
        Some x \<Rightarrow> Some x
      | None \<Rightarrow>
          (case own_property (prototype_of v) key of
             Some x \<Rightarrow> Some x
           | None \<Rightarrow>
               (case own_property (prototype_of (prototype_of v)) key of
                  Some x \<Rightarrow> Some x
                | None \<Rightarrow> if key = ''__proto__'' then Some (prototype_of v) else None)))"

text \<open>
  \<open>key in value\<close>: a TypeError unless the right operand is an object. A function is
  an object too, but the model holds no properties for it.
\<close>

fun js_in :: "string \<Rightarrow> jsval \<Rightarrow> error + bool" where
  "js_in key (Obj es) = Inr (lookup_property (Obj es) key \<noteq> None)"
| "js_in key (Arr es) = Inr (lookup_property (Arr es) key \<noteq> None)"
| "js_in key ObjectPrototype = Inr (lookup_property ObjectPrototype key \<noteq> None)"
| "js_in key ArrayPrototype = Inr (lookup_property ArrayPrototype key \<noteq> None)"
| "js_in key (Builtin f) = Inl Unmodelled"
| "js_in key v = Inl TypeError"

text \<open>
  \<open>value[key]\<close> as a read: a TypeError on \<open>null\<close> and \<open>undefined\<close>, the property
  or \<open>undefined\<close> on an object.
\<close>

definition read_property :: "jsval \<Rightarrow> string \<Rightarrow> jsval" where
  "read_property v key = (case lookup_property v key of Some x \<Rightarrow> x | None \<Rightarrow> Undefined)"

fun js_get :: "jsval \<Rightarrow> string \<Rightarrow> error + jsval" where
  "js_get (Obj es) key = Inr (read_property (Obj es) key)"
| "js_get (Arr es) key = Inr (read_property (Arr es) key)"
| "js_get ObjectPrototype key = Inr (read_property ObjectPrototype key)"
| "js_get ArrayPrototype key = Inr (read_property ArrayPrototype key)"
| "js_get Undefined key = Inl TypeError"
| "js_get Null key = Inl TypeError"
| "js_get v key = Inl Unmodelled"

section \<open>Paths\<close>

text \<open>\<open>path.split(".")\<close>: never empty; the empty string gives one empty segment.\<close>

fun split_dot :: "string \<Rightarrow> string list" where
  "split_dot [] = [[]]"
| "split_dot (c # cs) =
     (if c = CHR ''.'' then [] # split_dot cs
      else (c # hd (split_dot cs)) # tl (split_dot cs))"

section \<open>get, set, has, del\<close>

text \<open>
  The four accessors of the source: \<open>get\<close>, \<open>set\<close> (here \<open>set_path\<close>),
  \<open>has\<close> and \<open>del\<close>. Every call returns its result together with the root as
  the call leaves it. The root has type \<open>T extends object\<close> in the source: it is an
  object. Each loop over \<open>address\<close> is a recursion over the segments that are left.
\<close>

fun get_loop :: "jsval \<Rightarrow> string list \<Rightarrow> jsval \<Rightarrow> error + jsval" where
  "get_loop value [] def = Inr value"
| "get_loop value (key # rest) def =
     (if js_typeof value \<noteq> ''object'' \<or> value = Null then Inr def
      else case js_in key value of
             Inl e \<Rightarrow> Inl e
           | Inr present \<Rightarrow>
               if \<not> present then Inr def
               else (case js_get value key of
                       Inl e \<Rightarrow> Inl e
                     | Inr v \<Rightarrow> get_loop v rest def))"

definition get :: "props \<Rightarrow> string \<Rightarrow> jsval \<Rightarrow> (error + jsval) \<times> props" where
  "get obj path def = (let address = split_dot path in (get_loop (Obj obj) address def, obj))"

fun has_loop :: "jsval \<Rightarrow> string list \<Rightarrow> error + bool" where
  "has_loop value [] = Inr True"
| "has_loop value (key # rest) =
     (if js_typeof value \<noteq> ''object'' \<or> value = Null then Inr False
      else case js_in key value of
             Inl e \<Rightarrow> Inl e
           | Inr present \<Rightarrow>
               if \<not> present then Inr False
               else (case js_get value key of
                       Inl e \<Rightarrow> Inl e
                     | Inr v \<Rightarrow> has_loop v rest))"

definition has :: "props \<Rightarrow> string \<Rightarrow> (error + bool) \<times> props" where
  "has obj path = (let address = split_dot path in (has_loop (Obj obj) address, obj))"

text \<open>
  \<open>set\<close>: the loop runs over every segment of the address; \<open>value\<close> is always an
  object. The child the loop steps into is mutated in place by the rest of the call,
  so the parent holds the child, a plain object or an array as before, as the rest of
  the call leaves it. \<open>set\<close> and \<open>del\<close> are modelled on the properties an object
  holds itself and lists in \<open>Object.entries\<close> (\<open>own_prop\<close>); an inherited function
  or the \<open>length\<close> of an array fails the test for an object as an absent property
  does. A walk through \<open>__proto__\<close>, which would write to the prototype all objects
  share, and a write to the \<open>length\<close> of an array are outside the model.
\<close>

definition own_prop :: "props \<Rightarrow> string \<Rightarrow> jsval" where
  "own_prop es key = (case map_of es key of Some v \<Rightarrow> v | None \<Rightarrow> Undefined)"

definition is_object :: "jsval \<Rightarrow> bool" where
  "is_object v = (\<not> (js_typeof v \<noteq> ''object'' \<or> v = Null))"

fun as_record :: "jsval \<Rightarrow> props" where
  "as_record (Obj es) = es"
| "as_record (Arr es) = es"
| "as_record v = []"

fun with_record :: "jsval \<Rightarrow> props \<Rightarrow> jsval" where
  "with_record (Arr old) es = Arr es"
| "with_record v es = Obj es"

fun set_loop :: "props \<Rightarrow> string list \<Rightarrow> string \<Rightarrow> jsval \<Rightarrow> props" where
  "set_loop value [] lastKey val = put lastKey val value"
| "set_loop value (key # rest) lastKey val =
     (let value1 = (if \<not> is_object (own_prop value key) then put key (Obj []) value else value);
          child = as_record (own_prop value1 key)
      in put key (with_record (own_prop value1 key) (set_loop child rest lastKey val)) value1)"

text \<open>
  \<open>address[address.length - 1]\<close>: \<open>undefined\<close> on the empty address, and
  \<open>undefined\<close> used as a property key is the key \<open>"undefined"\<close>.
\<close>

definition last_key :: "string list \<Rightarrow> string" where
  "last_key address = (if address = [] then ''undefined'' else last address)"

definition set_path :: "props \<Rightarrow> string \<Rightarrow> jsval \<Rightarrow> jsval \<times> props" where
  "set_path obj path val =
     (if path = '''' then (Bool False, obj)
      else let address = filter (\<lambda>s. s \<noteq> '''') (split_dot path)
           in (Undefined, set_loop obj address (last_key address) val))"

text \<open>
  \<open>del\<close>: the loop returns \<open>undefined\<close> early (\<open>None\<close>), before any write; past
  the loop the call reads and overwrites \<open>lastKey\<close> in the object the loop ended in.
\<close>

fun del_loop :: "props \<Rightarrow> string list \<Rightarrow> string \<Rightarrow> (jsval \<times> props) option" where
  "del_loop value [] lastKey = Some (own_prop value lastKey, put lastKey Undefined value)"
| "del_loop value (key # rest) lastKey =
     (if key \<notin> fst ` set value \<or> \<not> is_object (own_prop value key) then None
      else case del_loop (as_record (own_prop value key)) rest lastKey of
             None \<Rightarrow> None
           | Some (target, child) \<Rightarrow>
               Some (target, put key (with_record (own_prop value key) child) value))"

definition del :: "props \<Rightarrow> string \<Rightarrow> jsval \<times> props" where
  "del obj path =
     (let address = split_dot path
      in case del_loop obj address (last_key address) of
           None \<Rightarrow> (Undefined, obj)
         | Some (target, obj') \<Rightarrow> (target, obj'))"

section \<open>scan\<close>

text \<open>
  A \<open>Map\<close> keyed by paths lists its entries in the order the keys were first set;
  \<open>map.set\<close> on a key the map holds replaces the value where the entry is.
\<close>

type_synonym pathmap = "(string \<times> jsval) list"

definition map_set :: "string \<Rightarrow> jsval \<Rightarrow> pathmap \<Rightarrow> pathmap" where
  "map_set path value m = AList.update path value m"

text \<open>
  The loop of \<open>scan\<close> over \<open>Object.entries(obj)\<close>, with the map it fills passed
  along. The recursive call is on a property of the object at hand, and the loop goes on
  with the entries that are left: the object the call is on gets smaller.
\<close>

function scan :: "props \<Rightarrow> string \<Rightarrow> pathmap \<Rightarrow> pathmap" where
  "scan [] prefix m = m"
| "scan ((key, value) # entries) prefix m =
     (let path = (if prefix \<noteq> '''' then prefix @ ''.'' @ key else key);
          m1 = map_set path value m;
          m2 = (if js_truthy value \<and> js_typeof value = ''object''
                then scan (as_record value) path m1 else m1)
      in scan entries prefix m2)"
  by pat_completeness auto
termination
  apply (relation "measure (\<lambda>(obj, prefix, m). size (Obj obj))")
    apply simp
  subgoal for key v by (cases v) simp_all
  apply simp
  done

section \<open>merge, map\<close>

text \<open>
  \<open>merge\<close> and \<open>map\<close> (here \<open>map_values\<close>): \<open>map.forEach\<close> visits the entries
  of the snapshot in the map's order, and the callback writes to the root. An object
  among the written values is shared in the source between the snapshot and the root;
  here it is written as the tree it was when \<open>scan\<close> met it.
\<close>

definition merge :: "props \<Rightarrow> props \<Rightarrow> props" where
  "merge target source =
     (let m = scan source '''' []
      in foldl (\<lambda>t (path, value). snd (set_path t path value)) target m)"

definition map_values :: "props \<Rightarrow> (string \<Rightarrow> jsval \<Rightarrow> jsval) \<Rightarrow> props" where
  "map_values obj func =
     (let m = scan obj '''' []
      in foldl (\<lambda>t (path, value). snd (set_path t path (func path value))) obj m)"

section \<open>cache\<close>

text \<open>
  The map of \<open>cache(obj)\<close> keeps what \<open>scan\<close> hands over: a primitive, or the object
  itself, not a copy of it. What the cache answers after the root was written to
  therefore depends on which objects are the same, and the cache is modelled over a
  heap: an object lives at an address, and a property holds a primitive or the address
  of an object (\<open>HRef\<close>). A write that bypasses the cache changes the heap and leaves
  the closure of the cache, its map and its reference to the root, as it is.
\<close>

datatype hval =
    HUndefined
  | HNull
  | HBool bool
  | HNum int
  | HStr string
  | HRef nat
  | HBuiltin string
  | HObjectPrototype
  | HArrayPrototype

type_synonym hprops = "(string \<times> hval) list"

datatype hobject = HObj hprops | HArr hprops

type_synonym heap = "(nat \<times> hobject) list"

text \<open>An address the heap does not list holds an object without properties.\<close>

definition cell :: "heap \<Rightarrow> nat \<Rightarrow> hobject" where
  "cell h a = (case map_of h a of Some ob \<Rightarrow> ob | None \<Rightarrow> HObj [])"

fun hprops_of :: "hobject \<Rightarrow> hprops" where
  "hprops_of (HObj es) = es"
| "hprops_of (HArr es) = es"





















section \<open>The specification's notions\<close>




text \<open>
  The enumeration as the specification words it: depth first, the entry of a child,
  then the entries below that child, then the next sibling.
\<close>

fun scan_preorder_spec :: "props \<Rightarrow> string \<Rightarrow> (string \<times> jsval) list" where
  "scan_preorder_spec [] prefix = []"
| "scan_preorder_spec ((key, value) # entries) prefix =
     (let path = (if prefix \<noteq> '''' then prefix @ ''.'' @ key else key)
      in (path, value)
         # (case value of
              Obj child \<Rightarrow> scan_preorder_spec child path
            | Arr child \<Rightarrow> scan_preorder_spec child path
            | _ \<Rightarrow> [])
         @ scan_preorder_spec entries prefix)"

text \<open>
  The containers the path scheme addresses without loss: in every object the keys are
  pairwise different, not empty and free of the separator.
\<close>

fun well_keyed :: "props \<Rightarrow> bool" where
  "well_keyed [] = True"
| "well_keyed ((key, value) # entries) =
     (key \<noteq> '''' \<and> CHR ''.'' \<notin> set key \<and> key \<notin> fst ` set entries
      \<and> (case value of
            Obj child \<Rightarrow> well_keyed child
          | Arr child \<Rightarrow> well_keyed child
          | _ \<Rightarrow> True)
      \<and> well_keyed entries)"

text \<open>
  The path \<open>scan\<close> builds for a chain of keys below a prefix: the template
  \<open>prefix ? `${prefix}.${key}` : key\<close>, key after key.
\<close>

fun join_path :: "string \<Rightarrow> string list \<Rightarrow> string" where
  "join_path prefix [] = prefix"
| "join_path prefix (key # keys) =
     join_path (if prefix \<noteq> '''' then prefix @ ''.'' @ key else key) keys"


text \<open>
  What a reader of a value sees in a heap: the tree below it. \<open>None\<close>: the tree is
  deeper than the fuel.
\<close>

fun tree_of :: "nat \<Rightarrow> heap \<Rightarrow> hval \<Rightarrow> jsval option"
  and trees_of :: "nat \<Rightarrow> heap \<Rightarrow> hprops \<Rightarrow> props option" where
  "tree_of fuel h HUndefined = Some Undefined"
| "tree_of fuel h HNull = Some Null"
| "tree_of fuel h (HBool b) = Some (Bool b)"
| "tree_of fuel h (HNum n) = Some (Num n)"
| "tree_of fuel h (HStr s) = Some (Str s)"
| "tree_of fuel h (HBuiltin f) = Some (Builtin f)"
| "tree_of fuel h HObjectPrototype = Some ObjectPrototype"
| "tree_of fuel h HArrayPrototype = Some ArrayPrototype"
| "tree_of 0 h (HRef a) = None"
| "tree_of (Suc left) h (HRef a) =
     (case trees_of left h (hprops_of (cell h a)) of
        None \<Rightarrow> None
      | Some es \<Rightarrow> Some (case cell h a of HObj old \<Rightarrow> Obj es | HArr old \<Rightarrow> Arr es))"
| "trees_of fuel h [] = Some []"
| "trees_of fuel h ((key, value) # entries) =
     (case tree_of fuel h value of
        None \<Rightarrow> None
      | Some t \<Rightarrow>
          (case trees_of fuel h entries of
             None \<Rightarrow> None
           | Some ts \<Rightarrow> Some ((key, t) # ts)))"

section \<open>Auxiliary facts\<close>

subsection \<open>get and has resolve the address\<close>



lemma split_dot_not_Nil: "split_dot s \<noteq> []"
  by (induction s) auto






subsection \<open>The map that scan fills\<close>

lemma scan_as_fold:
  "scan es prefix m = foldl (\<lambda>m (p, v). map_set p v m) m (scan_preorder_spec es prefix)"
proof (induction es prefix m rule: scan.induct)
  case (1 prefix m)
  show ?case by simp
next
  case (2 key "value" entries prefix m)
  then show ?case by (cases "value") (simp_all add: Let_def)
qed

lemma update_fresh: "k \<notin> fst ` set al \<Longrightarrow> AList.update k v al = al @ [(k, v)]"
  by (induction al) auto

lemma fold_update_distinct:
  "distinct (map fst (acc @ xs))
   \<Longrightarrow> foldl (\<lambda>m (p, v). AList.update p v m) acc xs = acc @ xs"
proof (induction xs arbitrary: acc)
  case Nil
  show ?case by simp
next
  case (Cons x xs)
  obtain p v where x: "x = (p, v)" by (cases x)
  from Cons.prems x have fresh: "p \<notin> fst ` set acc" by auto
  from Cons.prems x have "distinct (map fst ((acc @ [(p, v)]) @ xs))" by simp
  from Cons.IH [OF this] fresh x show ?case
    by (simp add: update_fresh)
qed

lemma fold_set_distinct:
  "distinct (map fst (acc @ xs)) \<Longrightarrow> foldl (\<lambda>m (p, v). map_set p v m) acc xs = acc @ xs"
  using fold_update_distinct [of acc xs] by (simp add: map_set_def)

subsection \<open>Splitting a path that scan built\<close>

lemma split_dot_append:
  "split_dot (a @ CHR ''.'' # b) = split_dot a @ split_dot b"
proof (induction a)
  case Nil
  show ?case by simp
next
  case (Cons c a)
  show ?case
  proof (cases "c = CHR ''.''")
    case True
    with Cons show ?thesis by simp
  next
    case False
    obtain s ss where s: "split_dot a = s # ss"
      using split_dot_not_Nil [of a] by (cases "split_dot a") auto
    with False Cons show ?thesis by simp
  qed
qed

lemma split_dot_plain: "CHR ''.'' \<notin> set k \<Longrightarrow> split_dot k = [k]"
  by (induction k) auto

lemma split_dot_join:
  "pre \<noteq> [] \<Longrightarrow> \<forall>k\<in>set ks. CHR ''.'' \<notin> set k
   \<Longrightarrow> split_dot (join_path pre ks) = split_dot pre @ ks"
proof (induction ks arbitrary: pre)
  case Nil
  show ?case by simp
next
  case (Cons k ks)
  have "split_dot (join_path (pre @ ''.'' @ k) ks) = split_dot (pre @ ''.'' @ k) @ ks"
    using Cons.prems by (intro Cons.IH) auto
  then show ?case using Cons.prems by (simp add: split_dot_append split_dot_plain)
qed

lemma split_dot_join_root:
  assumes "ks \<noteq> []" "\<forall>k\<in>set ks. k \<noteq> [] \<and> CHR ''.'' \<notin> set k"
  shows "split_dot (join_path '''' ks) = ks"
proof -
  obtain k ks' where ks: "ks = k # ks'" using assms(1) by (cases ks) auto
  with assms(2) have "split_dot (join_path k ks') = split_dot k @ ks'"
    by (intro split_dot_join) auto
  with ks assms(2) show ?thesis by (simp add: split_dot_plain)
qed

subsection \<open>On a well-keyed root no path comes up twice\<close>

lemma join_path_inj:
  assumes "ks1 \<noteq> []" "\<forall>k\<in>set ks1. k \<noteq> [] \<and> CHR ''.'' \<notin> set k"
    and "ks2 \<noteq> []" "\<forall>k\<in>set ks2. k \<noteq> [] \<and> CHR ''.'' \<notin> set k"
    and eq: "join_path prefix ks1 = join_path prefix ks2"
  shows "ks1 = ks2"
proof (cases "prefix = []")
  case True
  have "ks1 = split_dot (join_path prefix ks1)"
    unfolding True by (rule split_dot_join_root [OF assms(1,2), symmetric])
  also have "\<dots> = split_dot (join_path prefix ks2)" by (simp only: eq)
  also have "\<dots> = ks2"
    unfolding True by (rule split_dot_join_root [OF assms(3,4)])
  finally show ?thesis .
next
  case False
  from assms(2) have d1: "\<forall>k\<in>set ks1. CHR ''.'' \<notin> set k" by blast
  from assms(4) have d2: "\<forall>k\<in>set ks2. CHR ''.'' \<notin> set k" by blast
  have "split_dot prefix @ ks1 = split_dot (join_path prefix ks1)"
    by (rule split_dot_join [OF False d1, symmetric])
  also have "\<dots> = split_dot (join_path prefix ks2)" by (simp only: eq)
  also have "\<dots> = split_dot prefix @ ks2" by (rule split_dot_join [OF False d2])
  finally show ?thesis by (simp only: same_append_eq)
qed

text \<open>The entries the enumeration lists below a value that is an object or an array.\<close>

lemma below_cases:
  assumes "p \<in> fst ` set (case value of
              Obj child \<Rightarrow> scan_preorder_spec child path
            | Arr child \<Rightarrow> scan_preorder_spec child path
            | _ \<Rightarrow> [])"
  obtains child where "value = Obj child \<or> value = Arr child"
    "p \<in> fst ` set (scan_preorder_spec child path)"
  using assms by (cases "value") auto

lemma preorder_heads:
  "well_keyed c \<Longrightarrow> p \<in> fst ` set (scan_preorder_spec c prefix)
   \<Longrightarrow> \<exists>ks. ks \<noteq> [] \<and> (\<forall>k\<in>set ks. k \<noteq> [] \<and> CHR ''.'' \<notin> set k)
            \<and> p = join_path prefix ks \<and> hd ks \<in> fst ` set c"
proof (induction c prefix arbitrary: p rule: scan_preorder_spec.induct)
  case (1 prefix)
  then show ?case by simp
next
  case (2 key "value" entries prefix)
  define path where "path = (if prefix \<noteq> '''' then prefix @ ''.'' @ key else key)"
  define below where "below = (case value of
              Obj child \<Rightarrow> scan_preorder_spec child path
            | Arr child \<Rightarrow> scan_preorder_spec child path
            | _ \<Rightarrow> [])"
  from "2.prems"(1) have key: "key \<noteq> []" "CHR ''.'' \<notin> set key" "key \<notin> fst ` set entries"
    and wk_rest: "well_keyed entries" by auto
  have step: "join_path prefix (key # ks) = join_path path ks" for ks
    by (simp add: path_def)
  have "scan_preorder_spec ((key, value) # entries) prefix
      = (path, value) # below @ scan_preorder_spec entries prefix"
    by (cases "value") (simp_all add: path_def below_def Let_def)
  with "2.prems"(2) consider
      (here) "p = path"
    | (below) "p \<in> fst ` set below"
    | (rest) "p \<in> fst ` set (scan_preorder_spec entries prefix)"
    by auto
  then show ?case
  proof cases
    case here
    with key have "[key] \<noteq> [] \<and> (\<forall>k\<in>set [key]. k \<noteq> [] \<and> CHR ''.'' \<notin> set k)
        \<and> p = join_path prefix [key] \<and> hd [key] \<in> fst ` set ((key, value) # entries)"
      by (simp add: path_def)
    then show ?thesis by blast
  next
    case below
    from below [unfolded below_def] obtain child where
      child: "value = Obj child \<or> value = Arr child"
      and p: "p \<in> fst ` set (scan_preorder_spec child path)"
      by (rule below_cases)
    from "2.prems"(1) child have wk: "well_keyed child" by auto
    from child have "\<exists>ks. ks \<noteq> [] \<and> (\<forall>k\<in>set ks. k \<noteq> [] \<and> CHR ''.'' \<notin> set k)
        \<and> p = join_path path ks"
    proof
      assume v: "value = Obj child"
      from "2.IH"(1) [OF path_def v wk p] show ?thesis by blast
    next
      assume v: "value = Arr child"
      from "2.IH"(2) [OF path_def v wk p] show ?thesis by blast
    qed
    then obtain ks where ks: "ks \<noteq> []" "\<forall>k\<in>set ks. k \<noteq> [] \<and> CHR ''.'' \<notin> set k"
      "p = join_path path ks" by blast
    from ks(2) key have "\<forall>k\<in>set (key # ks). k \<noteq> [] \<and> CHR ''.'' \<notin> set k" by simp
    moreover from ks(3) have "p = join_path prefix (key # ks)" by (simp only: step)
    moreover have "hd (key # ks) \<in> fst ` set ((key, value) # entries)" by simp
    ultimately show ?thesis by blast
  next
    case rest
    from "2.IH"(3) [OF path_def wk_rest rest]
    obtain ks where ks: "ks \<noteq> []" "\<forall>k\<in>set ks. k \<noteq> [] \<and> CHR ''.'' \<notin> set k"
      "p = join_path prefix ks" "hd ks \<in> fst ` set entries" by blast
    from ks(4) have "hd ks \<in> fst ` set ((key, value) # entries)" by simp
    with ks(1,2,3) show ?thesis by blast
  qed
qed


lemma preorder_distinct:
  "well_keyed c \<Longrightarrow> distinct (map fst (scan_preorder_spec c prefix))"
proof (induction c prefix rule: scan_preorder_spec.induct)
  case (1 prefix)
  show ?case by simp
next
  case (2 key "value" entries prefix)
  define path where "path = (if prefix \<noteq> '''' then prefix @ ''.'' @ key else key)"
  define below where "below = (case value of
              Obj child \<Rightarrow> scan_preorder_spec child path
            | Arr child \<Rightarrow> scan_preorder_spec child path
            | _ \<Rightarrow> [])"
  define rest where "rest = scan_preorder_spec entries prefix"
  from "2.prems" have key: "key \<noteq> []" "CHR ''.'' \<notin> set key" "key \<notin> fst ` set entries"
    and wk_rest: "well_keyed entries" by auto
  have step: "join_path prefix (key # ks) = join_path path ks" for ks
    by (simp add: path_def)
  have path: "path = join_path prefix [key]" by (simp add: path_def)
  have one: "[key] \<noteq> []" "\<forall>k\<in>set [key]. k \<noteq> [] \<and> CHR ''.'' \<notin> set k"
    using key by simp_all
  have below_chain: "\<exists>ks. ks \<noteq> [] \<and> (\<forall>k\<in>set (key # ks). k \<noteq> [] \<and> CHR ''.'' \<notin> set k)
      \<and> p = join_path prefix (key # ks)" if "p \<in> fst ` set below" for p
  proof -
    from that [unfolded below_def] obtain child where
      child: "value = Obj child \<or> value = Arr child"
      and p: "p \<in> fst ` set (scan_preorder_spec child path)"
      by (rule below_cases)
    from "2.prems" child have wk: "well_keyed child" by auto
    from preorder_heads [OF wk p]
    obtain ks where ks: "ks \<noteq> []" "\<forall>k\<in>set ks. k \<noteq> [] \<and> CHR ''.'' \<notin> set k"
      "p = join_path path ks" by blast
    from ks(2) key have "\<forall>k\<in>set (key # ks). k \<noteq> [] \<and> CHR ''.'' \<notin> set k" by simp
    moreover from ks(3) have "p = join_path prefix (key # ks)" by (simp only: step)
    ultimately show ?thesis using ks(1) by blast
  qed
  have rest_chain: "\<exists>ks. ks \<noteq> [] \<and> (\<forall>k\<in>set ks. k \<noteq> [] \<and> CHR ''.'' \<notin> set k)
      \<and> p = join_path prefix ks \<and> hd ks \<noteq> key" if "p \<in> fst ` set rest" for p
  proof -
    from preorder_heads [OF wk_rest that [unfolded rest_def]]
    obtain ks where ks: "ks \<noteq> []" "\<forall>k\<in>set ks. k \<noteq> [] \<and> CHR ''.'' \<notin> set k"
      "p = join_path prefix ks" "hd ks \<in> fst ` set entries" by blast
    from ks(4) key(3) have "hd ks \<noteq> key" by blast
    with ks(1,2,3) show ?thesis by blast
  qed
  have a: "path \<notin> fst ` set below"
  proof
    assume "path \<in> fst ` set below"
    from below_chain [OF this] obtain ks where ks: "ks \<noteq> []"
      "\<forall>k\<in>set (key # ks). k \<noteq> [] \<and> CHR ''.'' \<notin> set k" "path = join_path prefix (key # ks)"
      by blast
    from ks(3) have "join_path prefix [key] = join_path prefix (key # ks)"
      by (simp only: path [symmetric])
    from join_path_inj [OF one _ ks(2) this] ks(1) show False by simp
  qed
  have b: "path \<notin> fst ` set rest"
  proof
    assume "path \<in> fst ` set rest"
    from rest_chain [OF this] obtain ks where ks: "ks \<noteq> []"
      "\<forall>k\<in>set ks. k \<noteq> [] \<and> CHR ''.'' \<notin> set k" "path = join_path prefix ks" "hd ks \<noteq> key"
      by blast
    from ks(3) have "join_path prefix [key] = join_path prefix ks"
      by (simp only: path [symmetric])
    from join_path_inj [OF one ks(1,2) this] ks(4) show False by auto
  qed
  have c: "fst ` set below \<inter> fst ` set rest = {}"
  proof (rule ccontr)
    assume "fst ` set below \<inter> fst ` set rest \<noteq> {}"
    then obtain p where p: "p \<in> fst ` set below" "p \<in> fst ` set rest" by blast
    from below_chain [OF p(1)] obtain ks where ks: "ks \<noteq> []"
      "\<forall>k\<in>set (key # ks). k \<noteq> [] \<and> CHR ''.'' \<notin> set k" "p = join_path prefix (key # ks)"
      by blast
    from rest_chain [OF p(2)] obtain ks' where ks': "ks' \<noteq> []"
      "\<forall>k\<in>set ks'. k \<noteq> [] \<and> CHR ''.'' \<notin> set k" "p = join_path prefix ks'" "hd ks' \<noteq> key"
      by blast
    have "join_path prefix (key # ks) = join_path prefix ks'"
      using ks(3) [symmetric] ks'(3) by (rule trans)
    from join_path_inj [OF _ ks(2) ks'(1,2) this] have "key # ks = ks'" by simp
    with ks'(4) show False by auto
  qed
  have d: "distinct (map fst below)"
  proof (cases "value")
    case (Obj child)
    with "2.prems" have "well_keyed child" by simp
    from "2.IH"(1) [OF path_def Obj this] Obj show ?thesis by (simp add: below_def)
  next
    case (Arr child)
    with "2.prems" have "well_keyed child" by simp
    from "2.IH"(2) [OF path_def Arr this] Arr show ?thesis by (simp add: below_def)
  qed (simp_all add: below_def)
  have e: "distinct (map fst rest)"
    using "2.IH"(3) [OF path_def wk_rest] by (simp add: rest_def)
  have "scan_preorder_spec ((key, value) # entries) prefix = (path, value) # below @ rest"
    by (cases "value") (simp_all add: path_def below_def rest_def Let_def)
  with a b c d e show ?case by auto
qed

subsection \<open>scan on the heap\<close>





section \<open>set: the value lands one level too deep\<close>

text \<open>
  C1. The claim: after \<open>set(r, p, v)\<close>, \<open>get(r, p)\<close> is \<open>v\<close>. The loop of \<open>set\<close>
  steps into the last segment as well, so on \<open>{name: "mahdi"}\<close> the call
  \<open>set(r, "name", "amir")\<close> leaves \<open>{name: {name: "amir"}}\<close> and \<open>get(r, "name")\<close>
  is the object \<open>{name: "amir"}\<close>, not \<open>"amir"\<close>.
\<close>

theorem set_then_get_is_nested:
  "fst (get (snd (set_path [(''name'', Str ''mahdi'')] ''name'' (Str ''amir''))) ''name'' Undefined)
     = Inr (Obj [(''name'', Str ''amir'')])"
  by code_simp

text \<open>
  C4. The claim: \<open>set\<close> returns \<open>false\<close> exactly on a path without segments and
  \<open>true\<close> otherwise. The function returns \<open>false\<close> on the empty string and falls off
  its end on every other path: the result is \<open>undefined\<close>, never \<open>true\<close>.
\<close>

theorem set_result_is_false_or_undefined:
  "fst (set_path r p v) = (if p = '''' then Bool False else Undefined)"
  by (simp add: set_path_def Let_def)

section \<open>del\<close>

text \<open>
  C2. The claim: after \<open>del(r, p)\<close>, \<open>has(r, p)\<close> is \<open>false\<close>. The loop of \<open>del\<close>
  steps into the last segment as well, and what follows the loop assigns
  \<open>undefined\<close> where a deletion would remove the key. On \<open>{a: {b: 1}}\<close> the call
  \<open>del(r, "a")\<close> returns \<open>undefined\<close> and leaves \<open>{a: {b: 1, a: undefined}}\<close>:
  the property \<open>a\<close> is still there, with one key more than before, and
  \<open>has(r, "a")\<close> is \<open>true\<close>.
\<close>

theorem del_then_has_is_true:
  "del [(''a'', Obj [(''b'', Num 1)])] ''a''
     = (Undefined, [(''a'', Obj [(''b'', Num 1), (''a'', Undefined)])])
   \<and> fst (has (snd (del [(''a'', Obj [(''b'', Num 1)])] ''a'')) ''a'') = Inr True"
  by code_simp

text \<open>
  C3. The claim: \<open>del\<close> stops at the penultimate container, overwrites the final key
  and returns the value stored there. The loop of \<open>del\<close> requires every segment, the
  last one too, to hold an object: on \<open>{age: 21}\<close> the call \<open>del(r, "age")\<close>
  returns \<open>undefined\<close> and leaves \<open>age\<close> at 21, though no segment is absent.
\<close>

theorem del_leaves_primitive_leaf:
  "del [(''age'', Num 21)] ''age'' = (Undefined, [(''age'', Num 21)])"
  by code_simp

section \<open>scan: the order of the entries\<close>

text \<open>
  C5. On \<open>{name: "mahdi", city: {name: "mashhad", code: "051"}}\<close>, \<open>scan\<close> yields
  \<open>name\<close>, \<open>city\<close>, \<open>city.name\<close>, \<open>city.code\<close> with their values, in this
  order. In general \<open>scan\<close> sets the entries in the order of the depth-first
  enumeration, a parent before its children and siblings in the order of the container.
  When no path comes up twice, and so on every well-keyed root, the map lists exactly
  that enumeration.
\<close>

theorem scan_is_preorder:
  "scan [(''name'', Str ''mahdi''),
         (''city'', Obj [(''name'', Str ''mashhad''), (''code'', Str ''051'')])] '''' []
     = [(''name'', Str ''mahdi''),
        (''city'', Obj [(''name'', Str ''mashhad''), (''code'', Str ''051'')]),
        (''city.name'', Str ''mashhad''),
        (''city.code'', Str ''051'')]
   \<and> scan r prefix m
     = foldl (\<lambda>m (path, value). map_set path value m) m (scan_preorder_spec r prefix)
   \<and> (distinct (map fst (scan_preorder_spec r ''''))
        \<longrightarrow> scan r '''' [] = scan_preorder_spec r '''')
   \<and> (well_keyed r \<longrightarrow> scan r '''' [] = scan_preorder_spec r '''')"
proof (intro conjI impI)
  show "scan [(''name'', Str ''mahdi''),
         (''city'', Obj [(''name'', Str ''mashhad''), (''code'', Str ''051'')])] '''' []
     = [(''name'', Str ''mahdi''),
        (''city'', Obj [(''name'', Str ''mashhad''), (''code'', Str ''051'')]),
        (''city.name'', Str ''mashhad''),
        (''city.code'', Str ''051'')]"
    by code_simp
next
  show "scan r prefix m
     = foldl (\<lambda>m (path, value). map_set path value m) m (scan_preorder_spec r prefix)"
    by (rule scan_as_fold)
next
  assume "distinct (map fst (scan_preorder_spec r ''''))"
  then show "scan r '''' [] = scan_preorder_spec r ''''"
    using fold_set_distinct [of "[]" "scan_preorder_spec r ''''"]
    by (simp add: scan_as_fold)
next
  assume "well_keyed r"
  then have "distinct (map fst (scan_preorder_spec r ''''))" by (rule preorder_distinct)
  then show "scan r '''' [] = scan_preorder_spec r ''''"
    using fold_set_distinct [of "[]" "scan_preorder_spec r ''''"]
    by (simp add: scan_as_fold)
qed

text \<open>
  The theorem at \<open>r = {skills: {0: "js", 1: "ts"}, age: 21}\<close>, whose paths are
  pairwise different.
\<close>

theorem scan_is_preorder_witness:
  "distinct (map fst (scan_preorder_spec
       [(''skills'', Obj [(''0'', Str ''js''), (''1'', Str ''ts'')]), (''age'', Num 21)] ''''))
   \<and> well_keyed [(''skills'', Obj [(''0'', Str ''js''), (''1'', Str ''ts'')]), (''age'', Num 21)]
   \<and> scan [(''skills'', Obj [(''0'', Str ''js''), (''1'', Str ''ts'')]), (''age'', Num 21)] '''' []
     = [(''skills'', Obj [(''0'', Str ''js''), (''1'', Str ''ts'')]),
        (''skills.0'', Str ''js''), (''skills.1'', Str ''ts''), (''age'', Num 21)]"
proof -
  have d: "distinct (map fst (scan_preorder_spec
       [(''skills'', Obj [(''0'', Str ''js''), (''1'', Str ''ts'')]), (''age'', Num 21)] ''''))"
    by code_simp
  have e: "scan_preorder_spec
       [(''skills'', Obj [(''0'', Str ''js''), (''1'', Str ''ts'')]), (''age'', Num 21)] ''''
     = [(''skills'', Obj [(''0'', Str ''js''), (''1'', Str ''ts'')]),
        (''skills.0'', Str ''js''), (''skills.1'', Str ''ts''), (''age'', Num 21)]"
    by code_simp
  from scan_is_preorder
    [of "[(''skills'', Obj [(''0'', Str ''js''), (''1'', Str ''ts'')]), (''age'', Num 21)]"
        "''''" "[]"] d
  have "scan [(''skills'', Obj [(''0'', Str ''js''), (''1'', Str ''ts'')]), (''age'', Num 21)] '''' []
      = scan_preorder_spec
          [(''skills'', Obj [(''0'', Str ''js''), (''1'', Str ''ts'')]), (''age'', Num 21)] ''''"
    by blast
  moreover
  have "well_keyed [(''skills'', Obj [(''0'', Str ''js''), (''1'', Str ''ts'')]), (''age'', Num 21)]"
    by simp
  ultimately show ?thesis using d e by simp
qed

section \<open>merge and map: what set makes of the entries\<close>

text \<open>
  C6. The claim: after \<open>merge(a, b)\<close> a leaf path of \<open>b\<close> reads in the target as it
  reads in \<open>b\<close>. With \<open>a = {a: 1}\<close> and \<open>b = {b: {c: 2}}\<close> the path \<open>b.c\<close> reads
  2 in \<open>b\<close> and the object \<open>{c: 2}\<close> in the merged target.
\<close>

theorem merge_leaf_is_nested:
  "fst (get (merge [(''a'', Num 1)] [(''b'', Obj [(''c'', Num 2)])]) ''b.c'' Undefined)
     = Inr (Obj [(''c'', Num 2)])
   \<and> fst (get [(''b'', Obj [(''c'', Num 2)])] ''b.c'' Undefined) = Inr (Num 2)"
  by code_simp

text \<open>
  C7. The claim: \<open>map\<close> applied twice with an idempotent callback leaves \<open>scan(r)\<close>
  as it was. On \<open>{a: 0}\<close> one pass with the identity already gives
  \<open>{a: {a: 0}}\<close>; two passes with the callback that returns 0, which is idempotent and
  maps the only value of the root to itself, give \<open>{a: {a: {a: 0}}}\<close>. The callbacks
  here write primitives only: a container a callback returns is shared in the source
  between the snapshot and the root.
\<close>

theorem map_changes_scan:
  "scan (map_values [(''a'', Num 0)] (\<lambda>path value. value)) '''' []
     = [(''a'', Obj [(''a'', Num 0)]), (''a.a'', Num 0)]
   \<and> scan (map_values (map_values [(''a'', Num 0)] (\<lambda>path value. Num 0))
             (\<lambda>path value. Num 0)) '''' []
     = [(''a'', Obj [(''a'', Obj [(''a'', Num 0)])]), (''a.a'', Obj [(''a'', Num 0)]),
        (''a.a.a'', Num 0)]
   \<and> scan [(''a'', Num 0)] '''' [] = [(''a'', Num 0)]"
  by code_simp

section \<open>cache: what an indexed path returns\<close>




section \<open>Reads\<close>



text \<open>
  C10. \<open>get\<close> and \<open>has\<close> leave the root as they found it, whatever the path and the
  default.
\<close>

theorem get_has_leave_root:
  "snd (get r p d) = r \<and> snd (has r p) = r"
  by (simp add: get_def has_def Let_def)

end
